theory Spec2Isabelle
  imports Main "HOL-Library.Word" "HOL-Library.Sublist"
begin

section \<open>JavaScript strings\<close>

text \<open>
  A JavaScript string is a sequence of UTF-16 code units. The regular expressions of the
  client carry no \<open>u\<close> flag, so they work on code units, as \<open>split\<close> and \<open>trim\<close> do.
  \<open>js\<close> writes an ASCII literal of the source as such a sequence.
\<close>

type_synonym jschar = "16 word"
type_synonym jsstring = "jschar list"

definition js :: "string \<Rightarrow> jsstring" where
  "js s = map of_char s"

abbreviation LT_c :: jschar where "LT_c \<equiv> 0x3C"
abbreviation GT_c :: jschar where "GT_c \<equiv> 0x3E"
abbreviation DQ_c :: jschar where "DQ_c \<equiv> 0x22"
abbreviation PIPE_c :: jschar where "PIPE_c \<equiv> 0x7C"
abbreviation SLASH_c :: jschar where "SLASH_c \<equiv> 0x2F"

text \<open>The class \<open>\s\<close>: WhiteSpace and LineTerminator of ECMAScript.\<close>

definition is_space :: "jschar \<Rightarrow> bool" where
  "is_space c \<longleftrightarrow>
     (0x09 \<le> c \<and> c \<le> 0x0D) \<or> c = 0x20 \<or> c = 0xA0 \<or> c = 0x1680 \<or>
     (0x2000 \<le> c \<and> c \<le> 0x200A) \<or> c = 0x2028 \<or> c = 0x2029 \<or> c = 0x202F \<or>
     c = 0x205F \<or> c = 0x3000 \<or> c = 0xFEFF"

text \<open>The class \<open>\w\<close>: \<open>[A-Za-z0-9_]\<close>.\<close>

definition is_word :: "jschar \<Rightarrow> bool" where
  "is_word c \<longleftrightarrow>
     (0x30 \<le> c \<and> c \<le> 0x39) \<or> (0x41 \<le> c \<and> c \<le> 0x5A) \<or> c = 0x5F \<or>
     (0x61 \<le> c \<and> c \<le> 0x7A)"

text \<open>\<open>String.prototype.trim\<close> removes leading and trailing code units of the class \<open>\s\<close>.\<close>

definition trim :: "jsstring \<Rightarrow> jsstring" where
  "trim s = rev (dropWhile is_space (rev (dropWhile is_space s)))"

text \<open>\<open>s.split(sep)\<close> for a separator of one code unit: always at least one part.\<close>

fun split :: "jschar \<Rightarrow> jsstring \<Rightarrow> jsstring list" where
  "split sep [] = [[]]"
| "split sep (c # cs) =
     (if c = sep then [] # split sep cs
      else (case split sep cs of
              [] \<Rightarrow> [[c]]
            | p # ps \<Rightarrow> (c # p) # ps))"

text \<open>\<open>xs[i]\<close> on a JavaScript array: \<open>undefined\<close> (here \<open>None\<close>) out of range.\<close>

definition nth_opt :: "'a list \<Rightarrow> nat \<Rightarrow> 'a option" where
  "nth_opt xs i = (if i < length xs then Some (xs ! i) else None)"

text \<open>Decimal rendering of a non-negative integer, as \<open>String(n)\<close> gives for a status code.\<close>

fun show_nat :: "nat \<Rightarrow> jsstring" where
  "show_nat n =
     (if n < 10 then [of_nat (48 + n)]
      else show_nat (n div 10) @ [of_nat (48 + n mod 10)])"

section \<open>The regular expressions of the client\<close>

text \<open>
  A backtracking matcher tries the candidates of a quantifier in order and takes the first
  one with which the rest of the pattern matches.
\<close>

fun first_some :: "('a \<Rightarrow> 'b option) \<Rightarrow> 'a list \<Rightarrow> 'b option" where
  "first_some f [] = None"
| "first_some f (x # xs) = (case f x of Some y \<Rightarrow> Some y | None \<Rightarrow> first_some f xs)"

text \<open>
  \<open>/<ticket\s([^>]+)\/>/\<close> (\<open>greedy\<close>, in \<open>getTicketDetails\<close>) and
  \<open>/<ticket\s([^>]+?)\/>/\<close> (lazy, in \<open>searchTicketsByCreator\<close>), tried at the start of
  \<open>s\<close>. The quantified class may take \<open>1\<close> up to \<open>run\<close> code units, \<open>run\<close> being the
  number of code units before the first \<open>>\<close>; the greedy quantifier tries the longest
  candidate first, the lazy one the shortest. The result is group 1 and the length of the
  whole match.
\<close>

definition ticket_at :: "bool \<Rightarrow> jsstring \<Rightarrow> (jsstring \<times> nat) option" where
  "ticket_at greedy s =
     (if prefix (js ''<ticket'') s then
        (case drop 7 s of
           [] \<Rightarrow> None
         | w # r \<Rightarrow>
             if is_space w then
               (let run = length (takeWhile (\<lambda>c. c \<noteq> GT_c) r);
                    candidates = (if greedy then rev [1 ..< Suc run] else [1 ..< Suc run])
                in first_some
                     (\<lambda>n. if prefix (js ''/>'') (drop n r) then Some (take n r, 8 + n + 2)
                          else None)
                     candidates)
             else None)
      else None)"

text \<open>
  \<open>/(\w+)="([^"]*)"/\<close> tried at the start of \<open>s\<close>: both quantifiers are greedy. The
  result is group 1, group 2 and the length of the whole match.
\<close>

definition attr_at :: "jsstring \<Rightarrow> (jsstring \<times> jsstring \<times> nat) option" where
  "attr_at s =
     first_some
       (\<lambda>i. if prefix (js ''=\"'') (drop i s) then
               (let r = drop (i + 2) s in
                first_some
                  (\<lambda>j. if prefix (js ''\"'') (drop j r) then Some (take i s, take j r, i + 2 + j + 1)
                       else None)
                  (rev [0 ..< Suc (length (takeWhile (\<lambda>c. c \<noteq> DQ_c) r))]))
             else None)
       (rev [1 ..< Suc (length (takeWhile is_word s))])"

text \<open>
  \<open>str.match(re)\<close> for a regular expression without the \<open>g\<close> flag: the start positions are
  tried from left to right, the empty rest of the string included.
\<close>

fun match_first :: "(jsstring \<Rightarrow> 'a option) \<Rightarrow> jsstring \<Rightarrow> 'a option" where
  "match_first m [] = m []"
| "match_first m (c # cs) =
     (case m (c # cs) of Some r \<Rightarrow> Some r | None \<Rightarrow> match_first m cs)"

section \<open>Attribute objects\<close>

text \<open>
  \<open>attrs = {}\<close> is a map from property names to strings. The assignment \<open>attrs[k] = v\<close>
  creates or overwrites the property, except for the name \<open>__proto__\<close>: that one reaches
  the setter of \<open>Object.prototype\<close>, which ignores a string and leaves the object as it is.
\<close>

type_synonym attrs = "jsstring \<rightharpoonup> jsstring"

definition set_prop :: "attrs \<Rightarrow> jsstring \<Rightarrow> jsstring \<Rightarrow> attrs" where
  "set_prop a k v = (if k = js ''__proto__'' then a else a(k \<mapsto> v))"

text \<open>
  The loop \<open>while ((m = attrRegex.exec(attrString)) !== null) attrs[m[1]] = m[2]\<close>. The
  argument is the text from \<open>lastIndex\<close> on; after a match, \<open>lastIndex\<close> is the end of the
  match. A match of this expression has three code units at least, so \<open>n - 1\<close> never
  truncates.
\<close>

fun attr_loop :: "jsstring \<Rightarrow> attrs \<Rightarrow> attrs" where
  "attr_loop [] a = a"
| "attr_loop (c # cs) a =
     (case attr_at (c # cs) of
        Some (k, v, n) \<Rightarrow> attr_loop (drop (n - 1) cs) (set_prop a k v)
      | None \<Rightarrow> attr_loop cs a)"

text \<open>
  The loop \<open>while ((m = ticketRegex.exec(xml)) !== null) { ...; tickets.push(attrs) }\<close> of
  \<open>searchTicketsByCreator\<close>, with the inner loop over the attributes of each match.
\<close>

fun ticket_loop :: "jsstring \<Rightarrow> attrs list" where
  "ticket_loop [] = []"
| "ticket_loop (c # cs) =
     (case ticket_at False (c # cs) of
        Some (attrString, n) \<Rightarrow> attr_loop attrString Map.empty # ticket_loop (drop (n - 1) cs)
      | None \<Rightarrow> ticket_loop cs)"

section \<open>Errors, transport and the client\<close>

text \<open>
  A thrown value is seen by the client through \<open>err.message\<close> and \<open>err.response\<close> only.
  \<open>new Error(msg)\<close> has no \<open>response\<close>; a transport error of \<open>axios\<close> has one when the
  server answered with a status outside 2xx, and none when no answer arrived.
\<close>

record http_response =
  status :: nat
  statusText :: jsstring

record js_error =
  message :: jsstring
  response :: "http_response option"

definition Error :: "jsstring \<Rightarrow> js_error" where
  "Error msg = \<lparr>message = msg, response = None\<rparr>"

text \<open>The template parts \<open>${err.response?.status}\<close> and \<open>${err.response?.statusText}\<close>.\<close>

definition status_str :: "js_error \<Rightarrow> jsstring" where
  "status_str err = (case response err of None \<Rightarrow> js ''undefined'' | Some r \<Rightarrow> show_nat (status r))"

definition statusText_str :: "js_error \<Rightarrow> jsstring" where
  "statusText_str err = (case response err of None \<Rightarrow> js ''undefined'' | Some r \<Rightarrow> statusText r)"

text \<open>Requests. The keys of an object literal are written as plain strings, in source order.\<close>

datatype param_value = PStr jsstring | PNum int | PNull

record http_request =
  url :: jsstring
  params :: "(string \<times> param_value) list"
  headers :: "(string \<times> jsstring) list"

datatype http_outcome = HttpOk jsstring | HttpFail js_error

type_synonym soap_handle = nat

datatype transport_call =
    HttpGet http_request
  | SoapCreateClient jsstring
  | SoapInvoke soap_handle string "(string \<times> param_value) list"

text \<open>Values of \<open>JSON.parse\<close>. A finite number is \<open>m * 2 ^ e\<close>.\<close>

datatype jsnum = Dyadic int int | PosInfinity | NegInfinity

datatype json =
    JNull
  | JBool bool
  | JNum jsnum
  | JStr jsstring
  | JArr "json list"
  | JObj "(jsstring \<times> json) list"

text \<open>
  What the client does not define itself is a parameter: the two transports, and the
  functions of the platform it calls. A SOAP operation answers with the string of its
  \<open>...Return\<close> field. \<open>HttpOk\<close> carries the body of a 2xx response as the text that
  \<open>axios\<close> has read from the wire; \<open>response.data\<close> is derived from it below.
  \<open>type_error_message\<close> is the message of the TypeError that the runtime throws for a
  failed access to the property named; \<open>object_toString\<close> is the conversion to a string
  of a number, an array or an object, \<open>None\<close> when it throws a TypeError.
  The calls of \<open>console.log\<close> leave no trace in the model, and \<open>createTicketV2\<close>,
  which nothing calls, is left out.
\<close>

record env =
  http_get :: "http_request \<Rightarrow> http_outcome"
  soap_createClient :: "jsstring \<Rightarrow> js_error + soap_handle"
  soap_invoke :: "soap_handle \<Rightarrow> string \<Rightarrow> (string \<times> param_value) list \<Rightarrow> js_error + jsstring"
  json_parse :: "jsstring \<Rightarrow> js_error + json"
  type_error_message :: "jsstring \<Rightarrow> jsstring"
  object_toString :: "json \<Rightarrow> jsstring option"
  encodeURIComponent :: "jsstring \<Rightarrow> js_error + jsstring"
  base64 :: "jsstring \<Rightarrow> jsstring"

text \<open>A TypeError is an error without a \<open>response\<close>.\<close>

definition TypeError :: "env \<Rightarrow> jsstring \<Rightarrow> js_error" where
  "TypeError ev name = Error (type_error_message ev name)"

text \<open>
  \<open>response.data\<close>. The client sets no \<open>responseType\<close> and no \<open>transformResponse\<close>, so
  the default transform of \<open>axios\<close> applies: a body that is not empty goes through
  \<open>JSON.parse\<close>; when that succeeds, \<open>response.data\<close> is the decoded value, and when it
  throws, the error is dropped and \<open>response.data\<close> is the text.
\<close>

definition response_data :: "env \<Rightarrow> jsstring \<Rightarrow> json" where
  "response_data ev body =
     (if body = [] then JStr body
      else (case json_parse ev body of Inr v \<Rightarrow> v | Inl err \<Rightarrow> JStr body))"

text \<open>
  \<open>d.name(...)\<close> for a method \<open>name\<close> of strings (\<open>trim\<close>, \<open>match\<close>): when \<open>d\<close> is a
  string the method runs on it; reading the property of \<open>null\<close> throws a TypeError, and
  so does the call on any other decoded value, which has no function under that name.
\<close>

definition string_receiver :: "env \<Rightarrow> json \<Rightarrow> jsstring \<Rightarrow> js_error + jsstring" where
  "string_receiver ev d name = (case d of JStr s \<Rightarrow> Inr s | _ \<Rightarrow> Inl (TypeError ev name))"

text \<open>
  \<open>parsed.name\<close>: reading a property of \<open>null\<close> throws; the names read here are no
  properties of a string, a number, a boolean or an array, which give \<open>undefined\<close>.
\<close>

definition get_prop :: "env \<Rightarrow> json \<Rightarrow> jsstring \<Rightarrow> js_error + json option" where
  "get_prop ev v name =
     (case v of
        JNull \<Rightarrow> Inl (TypeError ev name)
      | JObj kvs \<Rightarrow> Inr (map_of kvs name)
      | _ \<Rightarrow> Inr None)"

definition truthy :: "json option \<Rightarrow> bool" where
  "truthy v =
     (case v of
        None \<Rightarrow> False
      | Some JNull \<Rightarrow> False
      | Some (JBool b) \<Rightarrow> b
      | Some (JNum (Dyadic m e)) \<Rightarrow> m \<noteq> 0
      | Some (JNum _) \<Rightarrow> True
      | Some (JStr s) \<Rightarrow> s \<noteq> []
      | Some _ \<Rightarrow> True)"

text \<open>
  The conversion to a string, of a template part such as \<open>${parsed.ERRORTEXT}\<close> and of
  the argument of \<open>RegExp.prototype.exec\<close>.
\<close>

definition to_string :: "env \<Rightarrow> json option \<Rightarrow> js_error + jsstring" where
  "to_string ev v =
     (case v of
        None \<Rightarrow> Inr (js ''undefined'')
      | Some JNull \<Rightarrow> Inr (js ''null'')
      | Some (JBool b) \<Rightarrow> Inr (if b then js ''true'' else js ''false'')
      | Some (JStr s) \<Rightarrow> Inr s
      | Some x \<Rightarrow>
          (case object_toString ev x of
             None \<Rightarrow> Inl (TypeError ev (js ''toString''))
           | Some s \<Rightarrow> Inr s))"

record client =
  baseUrl :: jsstring
  soapWsdl :: jsstring
  username :: jsstring
  password :: jsstring
  authToken :: "jsstring option"
  soapClient :: "soap_handle option"

text \<open>The constructor: \<open>baseUrl.replace(/\/$/, "")\<close> removes one trailing slash.\<close>

definition strip_trailing_slash :: "jsstring \<Rightarrow> jsstring" where
  "strip_trailing_slash s = (if s \<noteq> [] \<and> last s = SLASH_c then butlast s else s)"

definition new_client :: "jsstring \<Rightarrow> jsstring \<Rightarrow> jsstring \<Rightarrow> jsstring \<Rightarrow> client" where
  "new_client base wsdl user pass =
     \<lparr>baseUrl = strip_trailing_slash base, soapWsdl = wsdl, username = user, password = pass,
      authToken = None, soapClient = None\<rparr>"

text \<open>\<open>this.authToken\<close> as a request value, and its truthiness (\<open>null\<close> and \<open>""\<close> are falsy).\<close>

definition token_value :: "client \<Rightarrow> param_value" where
  "token_value c = (case authToken c of None \<Rightarrow> PNull | Some t \<Rightarrow> PStr t)"

definition has_token :: "client \<Rightarrow> bool" where
  "has_token c = (case authToken c of None \<Rightarrow> False | Some t \<Rightarrow> t \<noteq> [])"

text \<open>
  Every operation returns its result (\<open>Inl\<close>: the error it throws), the client afterwards
  and the transport calls it made, in order.
\<close>

type_synonym 'a outcome = "(js_error + 'a) \<times> client \<times> transport_call list"

subsection \<open>authenticate\<close>

definition auth_request :: "env \<Rightarrow> client \<Rightarrow> http_request" where
  "auth_request ev c =
     \<lparr>url = baseUrl c @ js ''/dokuweb/auth/token'',
      params = [],
      headers = [(''Authorization'',
                  js ''Basic '' @ base64 ev (username c @ js '':'' @ password c))]\<rparr>"

text \<open>
  The \<open>try\<close> block ends with the transport error, with the TypeError of
  \<open>response.data.trim()\<close> on a decoded value that is no string, or with the string to
  trim; the \<open>catch\<close> block rewrites either error.
\<close>

definition authenticate :: "env \<Rightarrow> client \<Rightarrow> jsstring outcome" where
  "authenticate ev c =
     (let req = auth_request ev c in
      case (case http_get ev req of
              HttpFail err \<Rightarrow> Inl err
            | HttpOk body \<Rightarrow> string_receiver ev (response_data ev body) (js ''trim'')) of
        Inl err \<Rightarrow>
          (Inl (Error (js ''Authentication failed: '' @ status_str err @ js '' '' @
                       statusText_str err)),
           c, [HttpGet req])
      | Inr data \<Rightarrow>
          (Inr (trim data), c\<lparr>authToken := Some (trim data)\<rparr>, [HttpGet req]))"

subsection \<open>The SOAP client handle\<close>

text \<open>
  \<open>_getSoapClient\<close> of the source, without the leading underscore. A handle is an
  object, so \<open>!this.soapClient\<close> holds exactly when none is stored.
\<close>

definition getSoapClient :: "env \<Rightarrow> client \<Rightarrow> soap_handle outcome" where
  "getSoapClient ev c =
     (case soapClient c of
        Some h \<Rightarrow> (Inr h, c, [])
      | None \<Rightarrow>
          if \<not> has_token c then
            (Inl (Error (js ''authToken is missing. Call authenticate() first.'')), c, [])
          else
            (case soap_createClient ev (soapWsdl c) of
               Inl err \<Rightarrow> (Inl err, c, [SoapCreateClient (soapWsdl c)])
             | Inr h \<Rightarrow> (Inr h, c\<lparr>soapClient := Some h\<rparr>, [SoapCreateClient (soapWsdl c)])))"

subsection \<open>createTicket\<close>

record ticket_options =
  category :: "jsstring option"
  channel :: "jsstring option"
  description :: "jsstring option"
  ticketType :: "jsstring option"
  ticketGroup :: "jsstring option"
  fieldValues :: "jsstring option"
  priority :: "jsstring option"
  ticketSystem :: "jsstring option"

text \<open>\<open>x || d\<close> for a string or \<open>undefined\<close>: the default stands in for both falsy values.\<close>

definition or_default :: "jsstring option \<Rightarrow> jsstring \<Rightarrow> jsstring" where
  "or_default x d = (case x of None \<Rightarrow> d | Some s \<Rightarrow> if s = [] then d else s)"

definition createTicket_args ::
  "client \<Rightarrow> jsstring \<Rightarrow> jsstring \<Rightarrow> jsstring \<Rightarrow> ticket_options \<Rightarrow> (string \<times> param_value) list"
where
  "createTicket_args c subject partnerId keyword opts =
     [(''authToken'', token_value c),
      (''sSubject'', PStr subject),
      (''sPartner'', PStr partnerId),
      (''sKeyword'', PStr keyword),
      (''sCategory'', PStr (or_default (category opts) [])),
      (''sChannel'', PStr (or_default (channel opts) (js ''POST''))),
      (''sDescription'', PStr (or_default (description opts) [])),
      (''sType'', PStr (or_default (ticketType opts) (js ''1''))),
      (''sPLZ'', PStr []),
      (''sTicketgroup'', PStr (or_default (ticketGroup opts) [])),
      (''sFieldvalues'', PStr (or_default (fieldValues opts) [])),
      (''sPriority'', PStr (or_default (priority opts) [])),
      (''sTicketsystem'', PStr (or_default (ticketSystem opts) []))]"

record new_ticket =
  ticketid :: "jsstring option"
  ticketnr :: "jsstring option"

text \<open>The statements of the \<open>try\<close> block after the remote call has returned \<open>ret\<close>.\<close>

definition createTicket_parse :: "jsstring \<Rightarrow> js_error + new_ticket" where
  "createTicket_parse ret =
     (let parts = split PIPE_c ret in
      if nth_opt parts 0 \<noteq> Some (js ''true'') then
        Inl (Error (js ''Ticket creation failed: '' @ ret))
      else Inr \<lparr>ticketid = nth_opt parts 1, ticketnr = nth_opt parts 2\<rparr>)"

definition createTicket ::
  "env \<Rightarrow> client \<Rightarrow> jsstring \<Rightarrow> jsstring \<Rightarrow> jsstring \<Rightarrow> ticket_options \<Rightarrow> new_ticket outcome"
where
  "createTicket ev c subject partnerId keyword opts =
     (case getSoapClient ev c of
        (Inl err, c', calls) \<Rightarrow> (Inl err, c', calls)
      | (Inr h, c', calls) \<Rightarrow>
          (let methodArgs = createTicket_args c' subject partnerId keyword opts;
               calls' = calls @ [SoapInvoke h ''createTicket'' methodArgs]
           in case (case soap_invoke ev h ''createTicket'' methodArgs of
                      Inl err \<Rightarrow> Inl err
                    | Inr ret \<Rightarrow> createTicket_parse ret) of
                Inl err \<Rightarrow> (Inl (Error (js ''createTicket SOAP error: '' @ message err)), c', calls')
              | Inr t \<Rightarrow> (Inr t, c', calls')))"

subsection \<open>getKeywords\<close>

definition getKeywords_args :: "client \<Rightarrow> jsstring option \<Rightarrow> jsstring option \<Rightarrow> (string \<times> param_value) list" where
  "getKeywords_args c chan tsys =
     [(''authToken'', token_value c),
      (''sChannel'', PStr (case chan of None \<Rightarrow> [] | Some s \<Rightarrow> s)),
      (''sTicketsystem'', PStr (case tsys of None \<Rightarrow> [] | Some s \<Rightarrow> s))]"

text \<open>The statements of the \<open>try\<close> block after the remote call has returned \<open>ret\<close>.\<close>

definition getKeywords_parse :: "env \<Rightarrow> jsstring \<Rightarrow> js_error + json option" where
  "getKeywords_parse ev ret =
     (case json_parse ev ret of
        Inl err \<Rightarrow> Inl err
      | Inr parsed \<Rightarrow>
          (case get_prop ev parsed (js ''SUCCESS'') of
             Inl err \<Rightarrow> Inl err
           | Inr success \<Rightarrow>
               if \<not> truthy success then
                 (case get_prop ev parsed (js ''ERRORTEXT'') of
                    Inl err \<Rightarrow> Inl err
                  | Inr errortext \<Rightarrow>
                      (case to_string ev errortext of
                         Inl err \<Rightarrow> Inl err
                       | Inr txt \<Rightarrow> Inl (Error (js ''getKeywords failed: '' @ txt))))
               else get_prop ev parsed (js ''DATA'')))"

definition getKeywords ::
  "env \<Rightarrow> client \<Rightarrow> jsstring option \<Rightarrow> jsstring option \<Rightarrow> json option outcome"
where
  "getKeywords ev c chan tsys =
     (case getSoapClient ev c of
        (Inl err, c', calls) \<Rightarrow> (Inl err, c', calls)
      | (Inr h, c', calls) \<Rightarrow>
          (let methodArgs = getKeywords_args c' chan tsys;
               calls' = calls @ [SoapInvoke h ''getKeywords'' methodArgs]
           in case (case soap_invoke ev h ''getKeywords'' methodArgs of
                      Inl err \<Rightarrow> Inl err
                    | Inr ret \<Rightarrow> getKeywords_parse ev ret) of
                Inl err \<Rightarrow> (Inl (Error (js ''getKeywords SOAP error: '' @ message err)), c', calls')
              | Inr d \<Rightarrow> (Inr d, c', calls')))"

subsection \<open>getTicketDetails\<close>

definition details_request :: "client \<Rightarrow> jsstring \<Rightarrow> http_request" where
  "details_request c encoded =
     \<lparr>url = baseUrl c @ js ''/dokuweb/ticket/'' @ encoded,
      params = [(''authtoken'', token_value c)],
      headers = []\<rparr>"

text \<open>
  The statements of the \<open>try\<close> block from \<open>xml.match\<close> on, for a \<open>response.data\<close>
  that is the string \<open>xml\<close>.
\<close>

definition getTicketDetails_parse :: "jsstring \<Rightarrow> js_error + attrs" where
  "getTicketDetails_parse xml =
     (case match_first (ticket_at True) xml of
        None \<Rightarrow> Inl (Error (js ''No <ticket> element found in response.''))
      | Some (attrString, n) \<Rightarrow> Inr (attr_loop attrString Map.empty))"

definition getTicketDetails :: "env \<Rightarrow> client \<Rightarrow> jsstring \<Rightarrow> attrs outcome" where
  "getTicketDetails ev c ticketId =
     (case encodeURIComponent ev ticketId of
        Inl err \<Rightarrow> (Inl err, c, [])
      | Inr encoded \<Rightarrow>
          (let req = details_request c encoded in
           case (case http_get ev req of
                   HttpFail err \<Rightarrow> Inl err
                 | HttpOk body \<Rightarrow>
                     (case string_receiver ev (response_data ev body) (js ''match'') of
                        Inl err \<Rightarrow> Inl err
                      | Inr xml \<Rightarrow> getTicketDetails_parse xml)) of
             Inl err \<Rightarrow>
               (Inl (Error (js ''getTicketDetails REST error: '' @ status_str err @ js '' '' @
                            statusText_str err)),
                c, [HttpGet req])
           | Inr a \<Rightarrow> (Inr a, c, [HttpGet req])))"

subsection \<open>searchTicketsByCreator\<close>

text \<open>The options object: a field is \<open>None\<close> when the caller did not supply it.\<close>

record search_options =
  start_opt :: "int option"
  max_opt :: "int option"

definition search_request :: "client \<Rightarrow> jsstring \<Rightarrow> search_options \<Rightarrow> http_request" where
  "search_request c creatorLogin opts =
     \<lparr>url = baseUrl c @ js ''/dokuweb/tickets/'',
      params =
        [(''authtoken'', token_value c),
         (''start'', PNum (case start_opt opts of None \<Rightarrow> 1 | Some n \<Rightarrow> n)),
         (''max'', PNum (case max_opt opts of None \<Rightarrow> 10 | Some n \<Rightarrow> n)),
         (''field_count'', PNum 1),
         (''f1'', PStr (js ''CREATE_BY'')),
         (''f1_op'', PStr (js ''='')),
         (''f1_val'', PStr creatorLogin)],
      headers = []\<rparr>"

text \<open>
  \<open>ticketRegex.exec(xml)\<close> converts its argument to a string first: the loop runs on
  \<open>response.data\<close> itself when that is a string, and on the string form of the decoded
  value otherwise; a conversion that throws ends the \<open>try\<close> block.
\<close>

definition searchTicketsByCreator ::
  "env \<Rightarrow> client \<Rightarrow> jsstring \<Rightarrow> search_options \<Rightarrow> attrs list outcome"
where
  "searchTicketsByCreator ev c creatorLogin opts =
     (let req = search_request c creatorLogin opts in
      case (case http_get ev req of
              HttpFail err \<Rightarrow> Inl err
            | HttpOk body \<Rightarrow>
                (case to_string ev (Some (response_data ev body)) of
                   Inl err \<Rightarrow> Inl err
                 | Inr xml \<Rightarrow> Inr (ticket_loop xml))) of
        Inl err \<Rightarrow>
          (Inl (Error (js ''searchTicketsByCreator REST error: '' @ status_str err @ js '' '' @
                       statusText_str err)),
           c, [HttpGet req])
      | Inr tickets \<Rightarrow> (Inr tickets, c, [HttpGet req]))"

section \<open>Response documents\<close>

text \<open>
  The texts the extraction is stated for. A position opens a ticket element when
  \<open><ticket\<close> and one code unit of the class \<open>\s\<close> stand there; a text has a ticket
  element when some part of it is \<open><ticket\<close>, one such code unit, one or more code
  units other than \<open>>\<close>, and \<open>/>\<close>.
\<close>

definition opens_ticket :: "jsstring \<Rightarrow> bool" where
  "opens_ticket s \<longleftrightarrow>
     prefix (js ''<ticket'') s \<and> (case drop 7 s of [] \<Rightarrow> False | w # r \<Rightarrow> is_space w)"

definition no_ticket_open :: "jsstring \<Rightarrow> bool" where
  "no_ticket_open s \<longleftrightarrow> list_all (\<lambda>i. \<not> opens_ticket (drop i s)) [0 ..< length s]"

definition has_ticket_element :: "jsstring \<Rightarrow> bool" where
  "has_ticket_element xml \<longleftrightarrow>
     (\<exists>pre w body post.
        xml = pre @ js ''<ticket'' @ w # body @ js ''/>'' @ post \<and>
        is_space w \<and> body \<noteq> [] \<and> GT_c \<notin> set body)"

text \<open>
  An attribute is written as a gap, a name, \<open>="\<close>, a value and \<open>"\<close>; a ticket element as
  the text before it, \<open><ticket\<close>, one code unit of white space, its attributes, the text
  before the closing \<open>/>\<close>, and \<open>/>\<close>. \<open>attrs_of\<close> is the mapping such attributes
  denote: each name to its value as written, the last one standing for a repeated name.
\<close>

type_synonym attr_src = "jsstring \<times> jsstring \<times> jsstring"
type_synonym ticket_src = "jsstring \<times> jschar \<times> attr_src list \<times> jsstring"

fun attr_text :: "attr_src list \<Rightarrow> jsstring" where
  "attr_text [] = []"
| "attr_text ((gap, k, v) # kvs) = gap @ k @ js ''=\"'' @ v @ js ''\"'' @ attr_text kvs"

definition well_formed_attr :: "attr_src \<Rightarrow> bool" where
  "well_formed_attr = (\<lambda>(gap, k, v).
     list_all (\<lambda>c. \<not> is_word c) gap \<and> k \<noteq> [] \<and> list_all is_word k \<and> k \<noteq> js ''__proto__'' \<and>
     DQ_c \<notin> set v)"

definition attrs_of :: "attr_src list \<Rightarrow> attrs" where
  "attrs_of kvs = map_of (rev (map (\<lambda>(gap, k, v). (k, v)) kvs))"

fun doc_text :: "ticket_src list \<Rightarrow> jsstring \<Rightarrow> jsstring" where
  "doc_text [] tail = tail"
| "doc_text ((sep, w, kvs, trail) # es) tail =
     sep @ js ''<ticket'' @ w # (attr_text kvs @ trail) @ js ''/>'' @ doc_text es tail"

definition well_formed_ticket :: "ticket_src \<Rightarrow> bool" where
  "well_formed_ticket = (\<lambda>(sep, w, kvs, trail).
     no_ticket_open sep \<and> is_space w \<and> list_all well_formed_attr kvs \<and>
     list_all (\<lambda>c. \<not> is_word c) trail \<and> attr_text kvs @ trail \<noteq> [] \<and>
     GT_c \<notin> set (attr_text kvs @ trail))"

section \<open>Environments for concrete instances\<close>

text \<open>
  An environment that gives the same answer to every call of a kind; its third argument is
  what \<open>JSON.parse\<close> gives, for the SOAP return string or for the one response body of
  the instance. The only decoded value that is converted to a string below is a plain
  object, with the string form \<open>[object Object]\<close>. Its \<open>encodeURIComponent\<close> and \<open>base64\<close> return their argument, as
  the first does on the ticket ids used below; no statement below depends on the second.
  \<open>not_json\<close> is the outcome of \<open>JSON.parse\<close> on a text that is no JSON, as every text
  is that begins with \<open><\<close>.
\<close>

definition fixed_env :: "http_outcome \<Rightarrow> (js_error + jsstring) \<Rightarrow> (js_error + json) \<Rightarrow> env" where
  "fixed_env h s p =
     \<lparr>http_get = (\<lambda>_. h),
      soap_createClient = (\<lambda>_. Inr 0),
      soap_invoke = (\<lambda>_ _ _. s),
      json_parse = (\<lambda>_. p),
      type_error_message = (\<lambda>name. name @ js '' is not a function''),
      object_toString = (\<lambda>_. Some (js ''[object Object]'')),
      encodeURIComponent = Inr,
      base64 = id\<rparr>"

definition not_json :: "js_error + json" where
  "not_json = Inl (Error (js ''Unexpected token <''))"


definition demo_client :: client where
  "demo_client =
     new_client (js ''https://host/api/'') (js ''https://host/api?wsdl'') (js ''u'') (js ''p'')"

section \<open>The regular expressions, characterised\<close>

lemma first_some_None_iff: "first_some f xs = None \<longleftrightarrow> (\<forall>x\<in>set xs. f x = None)"
  by (induction xs) (auto split: option.splits)

lemma first_some_SomeD: "first_some f xs = Some y \<Longrightarrow> \<exists>x\<in>set xs. f x = Some y"
  by (induction xs) (auto split: option.splits)

lemma first_some_unique:
  "\<forall>x\<in>set xs. x \<noteq> a \<longrightarrow> f x = None \<Longrightarrow> a \<in> set xs \<Longrightarrow> first_some f xs = f a"
proof (induction xs)
  case Nil
  then show ?case by simp
next
  case (Cons x xs)
  show ?case
  proof (cases "x = a")
    case True
    show ?thesis
    proof (cases "f a")
      case None
      have "first_some f xs = None"
        unfolding first_some_None_iff
      proof
        fix y assume "y \<in> set xs"
        then show "f y = None" using Cons.prems(1) None by (cases "y = a") auto
      qed
      then show ?thesis using True None by simp
    next
      case (Some y)
      then show ?thesis using True by simp
    qed
  next
    case False
    then have "f x = None" using Cons.prems(1) by simp
    moreover have "a \<in> set xs" using Cons.prems(2) False by auto
    ultimately show ?thesis using Cons by simp
  qed
qed

lemma js_ticket_simps:
  "length (js ''<ticket'') = 7"
  "js ''<ticket'' = [0x3C, 0x74, 0x69, 0x63, 0x6B, 0x65, 0x74]"
  "js ''/>'' = [SLASH_c, GT_c]"
  "js ''=\"'' = [0x3D, DQ_c]"
  "js ''\"'' = [DQ_c]"
  by (simp_all add: js_def)

lemma close_candidate:
  assumes "prefix [SLASH_c, GT_c] (drop n r)" and "n \<le> length (takeWhile (\<lambda>c. c \<noteq> GT_c) r)"
  shows "Suc n = length (takeWhile (\<lambda>c. c \<noteq> GT_c) r)"
proof -
  let ?P = "\<lambda>c::jschar. c \<noteq> GT_c"
  let ?run = "length (takeWhile ?P r)"
  obtain t where d: "drop n r = SLASH_c # GT_c # t"
    using assms(1) by (auto simp: prefix_def)
  have "length (drop n r) = Suc (Suc (length t))"
    by (simp only: d list.size)
  then have len: "Suc n < length r"
    by simp
  have "r ! (n + 0) = (drop n r) ! 0" and "r ! (n + 1) = (drop n r) ! 1"
    using len by (simp_all only: nth_drop) 
  then have rn: "r ! n = SLASH_c" and rn1: "r ! Suc n = GT_c"
    by (simp_all only: d nth_Cons_0 nth_Cons_Suc One_nat_def add_0_right add_Suc_right)
  have "\<not> Suc n < ?run"
  proof
    assume a: "Suc n < ?run"
    then have "takeWhile ?P r ! Suc n = r ! Suc n"
      by (rule takeWhile_nth)
    moreover have "takeWhile ?P r ! Suc n \<in> set (takeWhile ?P r)"
      using a by (rule nth_mem)
    ultimately have "?P (r ! Suc n)"
      using set_takeWhileD by metis
    then show False using rn1 by simp
  qed
  moreover have "n \<noteq> ?run"
  proof
    assume e: "n = ?run"
    then have "?run < length r" using len by simp
    then have "\<not> ?P (r ! ?run)" by (rule nth_length_takeWhile)
    then have "r ! n = GT_c" using e by simp
    then show False using rn by simp
  qed
  ultimately show ?thesis using assms(2) by linarith
qed

lemma ticket_candidates:
  assumes "set cands = {1 ..< Suc (length (takeWhile (\<lambda>c. c \<noteq> GT_c) r))}"
  shows "first_some (\<lambda>n. if prefix (js ''/>'') (drop n r) then Some (g n) else None) cands =
           (if 2 \<le> length (takeWhile (\<lambda>c. c \<noteq> GT_c) r) \<and>
               prefix (js ''/>'') (drop (length (takeWhile (\<lambda>c. c \<noteq> GT_c) r) - 1) r)
            then Some (g (length (takeWhile (\<lambda>c. c \<noteq> GT_c) r) - 1)) else None)"
proof -
  let ?run = "length (takeWhile (\<lambda>c. c \<noteq> GT_c) r)"
  let ?f = "\<lambda>n. if prefix (js ''/>'') (drop n r) then Some (g n) else None"
  have only: "?f x = None" if "x \<in> set cands" "x \<noteq> ?run - 1" for x
  proof (cases "prefix (js ''/>'') (drop x r)")
    case True
    moreover have "x \<le> ?run" using that(1) assms by auto
    ultimately have "Suc x = ?run"
      using close_candidate [of x r] by (simp add: js_ticket_simps)
    then show ?thesis using that(2) by simp
  next
    case False
    then show ?thesis by simp
  qed
  show ?thesis
  proof (cases "2 \<le> ?run")
    case True
    then have "?run - 1 \<in> set cands" using assms by auto
    then have "first_some ?f cands = ?f (?run - 1)"
      using only by (intro first_some_unique) auto
    then show ?thesis using True by simp
  next
    case False
    have "?f x = None" if "x \<in> set cands" for x
    proof -
      have "x \<noteq> ?run - 1" using that assms False by auto
      then show ?thesis using only that by blast
    qed
    then have "first_some ?f cands = None"
      by (simp add: first_some_None_iff)
    then show ?thesis using False by simp
  qed
qed

lemma ticket_at_eq:
  "ticket_at greedy s =
     (if prefix (js ''<ticket'') s then
        (case drop 7 s of
           [] \<Rightarrow> None
         | w # r \<Rightarrow>
             if is_space w \<and> 2 \<le> length (takeWhile (\<lambda>c. c \<noteq> GT_c) r) \<and>
                prefix (js ''/>'') (drop (length (takeWhile (\<lambda>c. c \<noteq> GT_c) r) - 1) r)
             then Some (take (length (takeWhile (\<lambda>c. c \<noteq> GT_c) r) - 1) r,
                        8 + (length (takeWhile (\<lambda>c. c \<noteq> GT_c) r) - 1) + 2)
             else None)
      else None)"
proof -
  have c1: "set (rev [1 ..< Suc n]) = {1 ..< Suc n}" and c2: "set [1 ..< Suc n] = {1 ..< Suc n}" for n
    by (simp_all only: set_rev set_upt)
  show ?thesis
    unfolding ticket_at_def Let_def
    by (cases greedy)
       (simp_all only: if_True if_False ticket_candidates [OF c1] ticket_candidates [OF c2]
          split: list.split, auto split: list.split)
qed

lemma ticket_at_greedy_lazy: "ticket_at True s = ticket_at False s"
  by (simp only: ticket_at_eq [of True] ticket_at_eq [of False])

lemma ticket_at_open:
  "ticket_at greedy (js ''<ticket'' @ w # r) =
     (if is_space w \<and> 2 \<le> length (takeWhile (\<lambda>c. c \<noteq> GT_c) r) \<and>
         prefix (js ''/>'') (drop (length (takeWhile (\<lambda>c. c \<noteq> GT_c) r) - 1) r)
      then Some (take (length (takeWhile (\<lambda>c. c \<noteq> GT_c) r) - 1) r,
                 8 + (length (takeWhile (\<lambda>c. c \<noteq> GT_c) r) - 1) + 2)
      else None)"
  by (simp add: ticket_at_eq [of greedy] js_ticket_simps(1))

lemma ticket_at_element:
  assumes "is_space w" and "body \<noteq> []" and "GT_c \<notin> set body"
  shows "ticket_at greedy (js ''<ticket'' @ w # body @ js ''/>'' @ rest) =
           Some (body, length body + 10)"
proof -
  have "takeWhile (\<lambda>c. c \<noteq> GT_c) (body @ js ''/>'' @ rest) =
          body @ takeWhile (\<lambda>c. c \<noteq> GT_c) (js ''/>'' @ rest)"
    using assms(3) by (intro takeWhile_append2) auto
  then have tw: "takeWhile (\<lambda>c. c \<noteq> GT_c) (body @ js ''/>'' @ rest) = body @ [SLASH_c]"
    by (simp add: js_ticket_simps(3))
  show ?thesis
    unfolding ticket_at_open tw using assms(1,2) by (cases body) (simp_all add: js_ticket_simps(3))
qed

lemma ticket_at_SomeD:
  assumes "ticket_at greedy s = Some (body, n)"
  shows "\<exists>w rest. s = js ''<ticket'' @ w # body @ js ''/>'' @ rest \<and> is_space w \<and> body \<noteq> [] \<and>
           GT_c \<notin> set body \<and> n = length body + 10"
proof -
  from assms have p: "prefix (js ''<ticket'') s"
    unfolding ticket_at_eq [of greedy] by (simp split: if_splits)
  then obtain t where s: "s = js ''<ticket'' @ t" by (auto simp: prefix_def)
  have d: "drop 7 s = t" unfolding s by (simp add: js_ticket_simps(1))
  from assms p d obtain w r where t: "t = w # r"
    unfolding ticket_at_eq [of greedy] by (cases t) simp_all
  define k where "k = length (takeWhile (\<lambda>c. c \<noteq> GT_c) r) - 1"
  from assms p d t have f: "is_space w" "2 \<le> length (takeWhile (\<lambda>c. c \<noteq> GT_c) r)"
      "prefix (js ''/>'') (drop k r)" "take k r = body" "n = 8 + k + 2"
    unfolding ticket_at_eq [of greedy] k_def by (simp_all split: if_splits)
  from f(3) obtain rest where dr: "drop k r = js ''/>'' @ rest"
    by (auto simp: prefix_def)
  have r: "r = body @ js ''/>'' @ rest"
    using append_take_drop_id [of k r] by (simp only: dr f(4))
  have "length (takeWhile (\<lambda>c. c \<noteq> GT_c) r) \<le> length r" by (rule length_takeWhile_le)
  then have "k < length r" using f(2) k_def by simp
  then have lb: "length body = k" using f(4) by auto
  have "take k (take (length (takeWhile (\<lambda>c. c \<noteq> GT_c) r)) r) = take k r"
    by (simp add: k_def)
  then have "take k (takeWhile (\<lambda>c. c \<noteq> GT_c) r) = body"
    by (simp only: takeWhile_eq_take [symmetric] f(4))
  then have "set body \<subseteq> set (takeWhile (\<lambda>c. c \<noteq> GT_c) r)"
    using set_take_subset [of k "takeWhile (\<lambda>c. c \<noteq> GT_c) r"] by simp
  then have ngt: "GT_c \<notin> set body"
    using set_takeWhileD by fastforce
  have "body \<noteq> []" using lb f(2) k_def by auto
  then show ?thesis using s t r f(1) ngt lb f(5) by auto
qed

lemma not_word_eq: "\<not> is_word 0x3D"
  by (simp add: is_word_def)

lemma attr_at_pair:
  assumes "k \<noteq> []" and "\<forall>c\<in>set k. is_word c" and "DQ_c \<notin> set v"
  shows "attr_at (k @ js ''=\"'' @ v @ js ''\"'' @ rest) = Some (k, v, length k + length v + 3)"
proof -
  let ?s = "k @ js ''=\"'' @ v @ js ''\"'' @ rest"
  let ?r = "v @ js ''\"'' @ rest"
  have "takeWhile is_word ?s = k @ takeWhile is_word (js ''=\"'' @ ?r)"
    using assms(2) by (intro takeWhile_append2) auto
  then have wrun: "takeWhile is_word ?s = k"
    by (simp add: js_ticket_simps(4) not_word_eq)
  have "takeWhile (\<lambda>c. c \<noteq> DQ_c) ?r = v @ takeWhile (\<lambda>c. c \<noteq> DQ_c) (js ''\"'' @ rest)"
    using assms(3) by (intro takeWhile_append2) auto
  then have qrun: "takeWhile (\<lambda>c. c \<noteq> DQ_c) ?r = v"
    by (simp add: js_ticket_simps(5))
  have dk: "drop (length k) ?s = js ''=\"'' @ ?r" by simp
  have dk2: "drop (length k + 2) ?s = ?r" by (simp add: js_ticket_simps(4))
  have c1: "rev [1 ..< Suc (length k)] = length k # rev [1 ..< length k]"
    using assms(1) by (cases k) simp_all
  have c2: "rev [0 ..< Suc (length v)] = length v # rev [0 ..< length v]"
    by simp
  show ?thesis
    unfolding attr_at_def wrun c1 first_some.simps dk dk2 Let_def qrun c2
    by (simp add: js_ticket_simps(5))
qed

lemma attr_at_nonword:
  assumes "s = [] \<or> \<not> is_word (hd s)"
  shows "attr_at s = None"
proof -
  have "takeWhile is_word s = []" using assms by (cases s) auto
  then show ?thesis unfolding attr_at_def by simp
qed

lemma attr_loop_gap:
  "\<forall>c\<in>set g. \<not> is_word c \<Longrightarrow> attr_loop (g @ s) a = attr_loop s a"
proof (induction g)
  case Nil
  then show ?case by simp
next
  case (Cons c g)
  have "attr_at (c # g @ s) = None"
    using Cons.prems by (intro attr_at_nonword) simp
  then show ?case using Cons by simp
qed

lemma attr_loop_nonword:
  "\<forall>c\<in>set g. \<not> is_word c \<Longrightarrow> attr_loop g a = a"
  using attr_loop_gap [of g "[]" a] by simp

lemma attr_loop_pair:
  assumes "k \<noteq> []" and "\<forall>c\<in>set k. is_word c" and "DQ_c \<notin> set v"
  shows "attr_loop (k @ js ''=\"'' @ v @ js ''\"'' @ rest) a = attr_loop rest (set_prop a k v)"
proof -
  obtain c k' where k: "k = c # k'" using assms(1) by (cases k) auto
  have "attr_loop (c # k' @ js ''=\"'' @ v @ js ''\"'' @ rest) a =
          attr_loop (drop (length k + length v + 3 - 1) (k' @ js ''=\"'' @ v @ js ''\"'' @ rest))
            (set_prop a k v)"
    using attr_at_pair [OF assms, of rest] unfolding k by simp
  also have "drop (length k + length v + 3 - 1) (k' @ js ''=\"'' @ v @ js ''\"'' @ rest) = rest"
    unfolding k by (simp add: js_ticket_simps(4,5) numeral_3_eq_3)
  finally show ?thesis unfolding k by simp
qed

lemma ticket_at_not_open: "\<not> opens_ticket s \<Longrightarrow> ticket_at greedy s = None"
  unfolding opens_ticket_def ticket_at_eq [of greedy] by (auto split: list.splits)

lemma tag_tail_no_lt: "LT_c \<notin> set (tl (js ''<ticket''))"
  by (simp add: js_def)

lemma not_space_lt: "\<not> is_space LT_c"
  by (simp add: is_space_def)

lemma opens_ticket_overlap:
  assumes "a \<noteq> []" and "\<not> opens_ticket a" and "s = [] \<or> hd s = LT_c"
  shows "\<not> opens_ticket (a @ s)"
proof
  assume o: "opens_ticket (a @ s)"
  then have p: "prefix (js ''<ticket'') (a @ s)"
    and d: "case drop 7 (a @ s) of [] \<Rightarrow> False | w # r \<Rightarrow> is_space w"
    by (simp_all add: opens_ticket_def)
  from p obtain z where z: "a @ s = js ''<ticket'' @ z" by (auto simp: prefix_def)
  show False
  proof (cases "s = []")
    case True
    then show False using o assms(2) by simp
  next
    case False
    then obtain s' where s: "s = LT_c # s'" using assms(3) by (cases s) auto
    consider "7 < length a" | "length a = 7" | "length a < 7" by linarith
    then show False
    proof cases
      case 1
      have t1: "take 7 (a @ s) = take 7 a" using 1 by simp
      have t2: "take 7 (a @ s) = js ''<ticket''" unfolding z by (simp add: js_ticket_simps(1))
      have "take 7 a = js ''<ticket''" by (rule trans [OF t1 [symmetric] t2])
      then have pa: "prefix (js ''<ticket'') a" by (metis take_is_prefix)
      obtain x xs where dx: "drop 7 a = x # xs" using 1 by (cases "drop 7 a") auto
      then have "drop 7 (a @ s) = x # (xs @ s)" using 1 by simp
      then have "is_space x" using d by simp
      then have "opens_ticket a" using pa dx by (simp add: opens_ticket_def)
      then show False using assms(2) by simp
    next
      case 2
      then have "drop 7 (a @ s) = s" by simp
      then have "is_space LT_c" using d s by simp
      then show False using not_space_lt by simp
    next
      case 3
      let ?n = "length a"
      have pos: "0 < ?n" using assms(1) by simp
      have "(a @ s) ! ?n = LT_c" using s by (simp add: nth_append)
      moreover have "(js ''<ticket'' @ z) ! ?n = js ''<ticket'' ! ?n"
        using 3 by (simp add: nth_append js_ticket_simps(1))
      ultimately have e: "js ''<ticket'' ! ?n = LT_c" using z by simp
      obtain m where m: "?n = Suc m" using pos by (cases ?n) auto
      have "m < length (tl (js ''<ticket''))" using 3 m by (simp add: js_ticket_simps(1))
      then have "tl (js ''<ticket'') ! m \<in> set (tl (js ''<ticket''))" by (rule nth_mem)
      moreover have "tl (js ''<ticket'') ! m = js ''<ticket'' ! ?n"
        using 3 m by (simp add: nth_tl js_ticket_simps(1))
      ultimately show False using e tag_tail_no_lt by simp
    qed
  qed
qed

lemma ticket_loop_skip:
  assumes "\<forall>i<length sep. ticket_at False (drop i sep @ s) = None"
  shows "ticket_loop (sep @ s) = ticket_loop s"
  using assms
proof (induction sep)
  case Nil
  then show ?case by simp
next
  case (Cons c sep)
  have "ticket_at False (c # sep @ s) = None" using Cons.prems by force
  moreover have "\<forall>i<length sep. ticket_at False (drop i sep @ s) = None"
  proof (intro allI impI)
    fix i assume "i < length sep"
    then have "Suc i < length (c # sep)" by simp
    then have "ticket_at False (drop (Suc i) (c # sep) @ s) = None" using Cons.prems by blast
    then show "ticket_at False (drop i sep @ s) = None" by simp
  qed
  ultimately show ?case using Cons.IH by simp
qed

lemma match_first_skip:
  assumes "\<forall>i<length sep. m (drop i sep @ s) = None"
  shows "match_first m (sep @ s) = match_first m s"
  using assms
proof (induction sep)
  case Nil
  then show ?case by simp
next
  case (Cons c sep)
  have "m (c # sep @ s) = None" using Cons.prems by force
  moreover have "\<forall>i<length sep. m (drop i sep @ s) = None"
  proof (intro allI impI)
    fix i assume "i < length sep"
    then have "Suc i < length (c # sep)" by simp
    then have "m (drop (Suc i) (c # sep) @ s) = None" using Cons.prems by blast
    then show "m (drop i sep @ s) = None" by simp
  qed
  ultimately show ?case using Cons.IH by simp
qed

lemma match_first_hit: "m s = Some r \<Longrightarrow> match_first m s = Some r"
  by (cases s) simp_all

lemma separator_no_match:
  assumes "no_ticket_open sep" and "s = [] \<or> hd s = LT_c" and "i < length sep"
  shows "ticket_at greedy (drop i sep @ s) = None"
proof -
  have "\<not> opens_ticket (drop i sep)"
    using assms(1,3) by (simp add: no_ticket_open_def list_all_iff)
  moreover have "drop i sep \<noteq> []" using assms(3) by simp
  ultimately have "\<not> opens_ticket (drop i sep @ s)"
    using assms(2) by (intro opens_ticket_overlap)
  then show ?thesis by (rule ticket_at_not_open)
qed

lemma no_element_no_match:
  assumes "\<not> has_ticket_element xml"
  shows "ticket_at greedy (drop i xml) = None"
proof (cases "ticket_at greedy (drop i xml)")
  case None
  then show ?thesis .
next
  case (Some r)
  obtain body n where r: "r = (body, n)" by (cases r)
  from ticket_at_SomeD [OF Some [unfolded r]] obtain w rest where
    e: "drop i xml = js ''<ticket'' @ w # body @ js ''/>'' @ rest"
      "is_space w" "body \<noteq> []" "GT_c \<notin> set body"
    by blast
  have "xml = take i xml @ drop i xml" by simp
  then have "xml = take i xml @ js ''<ticket'' @ w # body @ js ''/>'' @ rest"
    using e(1) by simp
  then have "has_ticket_element xml"
    unfolding has_ticket_element_def using e(2-4) by blast
  then show ?thesis using assms by simp
qed


lemma match_first_no_match:
  "\<forall>i. m (drop i xs) = None \<Longrightarrow> match_first m xs = None"
proof (induction xs)
  case Nil
  then show ?case using Nil [rule_format, of 0] by simp
next
  case (Cons c cs)
  have "m (c # cs) = None" using Cons.prems [rule_format, of 0] by simp
  moreover have "\<forall>i. m (drop i cs) = None"
    using Cons.prems by (metis drop_Suc_Cons)
  ultimately show ?case using Cons.IH by simp
qed

lemma has_ticket_element_iff:
  "has_ticket_element xml \<longleftrightarrow> list_ex (\<lambda>i. ticket_at False (drop i xml) \<noteq> None) [0 ..< length xml]"
proof
  assume "has_ticket_element xml"
  then obtain pre w body post where
    e: "xml = pre @ js ''<ticket'' @ w # body @ js ''/>'' @ post"
      "is_space w" "body \<noteq> []" "GT_c \<notin> set body"
    unfolding has_ticket_element_def by blast
  have "ticket_at False (drop (length pre) xml) \<noteq> None"
    unfolding e(1) using ticket_at_element [OF e(2-4), of False post] by simp
  moreover have "length pre < length xml" unfolding e(1) by simp
  ultimately show "list_ex (\<lambda>i. ticket_at False (drop i xml) \<noteq> None) [0 ..< length xml]"
    unfolding list_ex_iff by (intro bexI [of _ "length pre"]) simp_all
next
  assume "list_ex (\<lambda>i. ticket_at False (drop i xml) \<noteq> None) [0 ..< length xml]"
  then obtain i where "ticket_at False (drop i xml) \<noteq> None"
    unfolding list_ex_iff by blast
  then show "has_ticket_element xml"
    by (rule contrapos_np) (rule no_element_no_match)
qed

lemma attr_loop_text:
  assumes "list_all well_formed_attr kvs" and "list_all (\<lambda>c. \<not> is_word c) trail"
  shows "attr_loop (attr_text kvs @ trail) a = a ++ attrs_of kvs"
  using assms(1)
proof (induction kvs arbitrary: a)
  case Nil
  have "attr_loop trail a = a"
    using assms(2) by (intro attr_loop_nonword) (simp add: list_all_iff)
  then show ?case by (simp add: attrs_of_def)
next
  case (Cons x kvs)
  obtain gap k v where x: "x = (gap, k, v)" by (cases x)
  from Cons.prems have wf: "\<forall>c\<in>set gap. \<not> is_word c" "k \<noteq> []" "\<forall>c\<in>set k. is_word c"
      "k \<noteq> js ''__proto__''" "DQ_c \<notin> set v" and rest: "list_all well_formed_attr kvs"
    unfolding x by (simp_all add: well_formed_attr_def list_all_iff)
  let ?t = "attr_text kvs @ trail"
  have "attr_loop (attr_text (x # kvs) @ trail) a = attr_loop (gap @ k @ js ''=\"'' @ v @ js ''\"'' @ ?t) a"
    unfolding x by simp
  also have "\<dots> = attr_loop (k @ js ''=\"'' @ v @ js ''\"'' @ ?t) a"
    using wf(1) by (rule attr_loop_gap)
  also have "\<dots> = attr_loop ?t (set_prop a k v)"
    using wf(2,3,5) by (rule attr_loop_pair)
  also have "\<dots> = set_prop a k v ++ attrs_of kvs"
    using rest by (rule Cons.IH)
  also have "\<dots> = a ++ attrs_of (x # kvs)"
    unfolding x using wf(4) by (simp add: set_prop_def attrs_of_def)
  finally show ?case .
qed

lemma hd_tag: "hd (js ''<ticket'' @ z) = LT_c"
  by (simp add: js_ticket_simps(2))

lemma ticket_loop_element:
  assumes "is_space w" and "body \<noteq> []" and "GT_c \<notin> set body"
  shows "ticket_loop (js ''<ticket'' @ w # body @ js ''/>'' @ rest) =
           attr_loop body Map.empty # ticket_loop rest"
proof -
  obtain c cs where t: "js ''<ticket'' = c # cs" and l: "length cs = 6"
    by (simp add: js_ticket_simps(2))
  have "drop (length body + 10 - 1) (cs @ w # body @ js ''/>'' @ rest) = rest"
    using l by (simp add: js_ticket_simps(3) numeral_3_eq_3)
  then show ?thesis
    using ticket_at_element [OF assms, of False rest] unfolding t by simp
qed

lemma ticket_loop_doc:
  assumes "list_all well_formed_ticket es" and "no_ticket_open tail"
  shows "ticket_loop (doc_text es tail) = map (\<lambda>(sep, w, kvs, trail). attrs_of kvs) es"
  using assms(1)
proof (induction es)
  case Nil
  have "ticket_loop (tail @ []) = ticket_loop []"
    using assms(2) by (intro ticket_loop_skip allI impI separator_no_match) simp_all
  then show ?case by simp
next
  case (Cons e es)
  obtain sep w kvs trail where e: "e = (sep, w, kvs, trail)" by (cases e)
  let ?body = "attr_text kvs @ trail"
  let ?rest = "doc_text es tail"
  from Cons.prems have wf: "no_ticket_open sep" "is_space w" "list_all well_formed_attr kvs"
      "list_all (\<lambda>c. \<not> is_word c) trail" "?body \<noteq> []" "GT_c \<notin> set ?body"
    and rest: "list_all well_formed_ticket es"
    unfolding e by (simp_all add: well_formed_ticket_def)
  have "ticket_loop (doc_text (e # es) tail) =
          ticket_loop (sep @ js ''<ticket'' @ w # ?body @ js ''/>'' @ ?rest)"
    unfolding e by simp
  also have "\<dots> = ticket_loop (js ''<ticket'' @ w # ?body @ js ''/>'' @ ?rest)"
    using wf(1) by (intro ticket_loop_skip allI impI separator_no_match) (simp_all add: hd_tag)
  also have "\<dots> = attr_loop ?body Map.empty # ticket_loop ?rest"
    using wf(2,5,6) by (rule ticket_loop_element)
  also have "attr_loop ?body Map.empty = attrs_of kvs"
    using attr_loop_text [OF wf(3,4), of Map.empty] by simp
  also have "ticket_loop ?rest = map (\<lambda>(sep, w, kvs, trail). attrs_of kvs) es"
    using rest by (rule Cons.IH)
  finally show ?case unfolding e by simp
qed

lemma match_first_doc:
  assumes "well_formed_ticket (sep, w, kvs, trail)"
  shows "match_first (ticket_at True)
           (sep @ js ''<ticket'' @ w # (attr_text kvs @ trail) @ js ''/>'' @ post) =
         Some (attr_text kvs @ trail, length (attr_text kvs @ trail) + 10)"
proof -
  let ?body = "attr_text kvs @ trail"
  from assms have wf: "no_ticket_open sep" "is_space w" "?body \<noteq> []" "GT_c \<notin> set ?body"
    by (simp_all add: well_formed_ticket_def)
  have "match_first (ticket_at True) (sep @ js ''<ticket'' @ w # ?body @ js ''/>'' @ post) =
          match_first (ticket_at True) (js ''<ticket'' @ w # ?body @ js ''/>'' @ post)"
    using wf(1) by (intro match_first_skip allI impI separator_no_match) (simp_all add: hd_tag)
  also have "\<dots> = Some (?body, length ?body + 10)"
    using wf(2-4) by (intro match_first_hit ticket_at_element)
  finally show ?thesis .
qed

section \<open>Helper facts about the operations\<close>

lemma split_not_Nil: "split sep s \<noteq> []"
  by (induction s) (auto split: list.splits)

lemma trim_surrounded:
  assumes "list_all is_space l" and "list_all is_space r"
    and "core = [] \<or> (\<not> is_space (hd core) \<and> \<not> is_space (last core))"
  shows "trim (l @ core @ r) = core"
proof (cases "core = []")
  case True
  have e: "dropWhile is_space (l @ r) = []"
    unfolding dropWhile_eq_Nil_conv using assms(1,2) by (auto simp: list_all_iff)
  show ?thesis
    unfolding trim_def True by (simp only: append_Nil e rev.simps dropWhile.simps)
next
  case False
  then have h: "\<not> is_space (hd core)" and t: "\<not> is_space (last core)" using assms(3) by auto
  have "dropWhile is_space (l @ core @ r) = dropWhile is_space (core @ r)"
    using assms(1) by (intro dropWhile_append2) (simp add: list_all_iff)
  also have "\<dots> = core @ r"
    using False h by (cases core) simp_all
  finally have 1: "dropWhile is_space (l @ core @ r) = core @ r" .
  have "dropWhile is_space (rev r @ rev core) = dropWhile is_space (rev core)"
    using assms(2) by (intro dropWhile_append2) (simp add: list_all_iff)
  also have "\<dots> = rev core"
    using False t by (cases "rev core") (simp_all add: hd_rev [symmetric])
  finally show ?thesis
    unfolding trim_def 1 by simp
qed

lemma attrs_of_lookup:
  assumes "distinct (map (\<lambda>(gap, k, v). k) kvs)" and "(gap, k, v) \<in> set kvs"
  shows "attrs_of kvs k = Some v"
proof -
  let ?ps = "map (\<lambda>(gap, k, v). (k, v)) kvs"
  have m: "map fst (rev ?ps) = rev (map (\<lambda>(gap, k, v). k) kvs)" by (induction kvs) auto
  have d: "distinct (map fst (rev ?ps))" unfolding m using assms(1) by simp
  have "(k, v) \<in> set (rev ?ps)" using assms(2) by force
  then show ?thesis unfolding attrs_of_def using d by (intro map_of_is_SomeI) 
qed

lemma attrs_of_dom: "dom (attrs_of kvs) = (\<lambda>(gap, k, v). k) ` set kvs"
  unfolding attrs_of_def by (force simp: dom_map_of_conv_image_fst)


lemma soap_precondition:
  assumes "soapClient c = None" and "\<not> has_token c"
  shows "createTicket ev c subject partnerId keyword opts =
           (Inl (Error (js ''authToken is missing. Call authenticate() first.'')), c, [])"
    and "getKeywords ev c chan tsys =
           (Inl (Error (js ''authToken is missing. Call authenticate() first.'')), c, [])"
  using assms by (simp_all add: createTicket_def getKeywords_def getSoapClient_def)

lemmas model_defs =
  js_def is_space_def is_word_def ticket_at_def attr_at_def set_prop_def attrs_of_def
  fixed_env_def not_json_def demo_client_def new_client_def strip_trailing_slash_def Error_def
  TypeError_def response_data_def string_receiver_def to_string_def
  status_str_def statusText_str_def token_value_def has_token_def nth_opt_def

lemma getTicketDetails_parse_none:
  assumes "\<not> has_ticket_element xml"
  shows "getTicketDetails_parse xml = Inl (Error (js ''No <ticket> element found in response.''))"
proof -
  have "match_first (ticket_at True) xml = None"
    using assms by (intro match_first_no_match allI no_element_no_match)
  then show ?thesis by (simp add: getTicketDetails_parse_def)
qed

lemma getTicketDetails_parse_element:
  assumes "well_formed_ticket (sep, w, kvs, trail)"
  shows "getTicketDetails_parse
           (sep @ js ''<ticket'' @ w # (attr_text kvs @ trail) @ js ''/>'' @ post) =
         Inr (attrs_of kvs)"
proof -
  from assms have wf: "list_all well_formed_attr kvs" "list_all (\<lambda>c. \<not> is_word c) trail"
    by (simp_all add: well_formed_ticket_def)
  have "attr_loop (attr_text kvs @ trail) Map.empty = attrs_of kvs"
    using attr_loop_text [OF wf, of Map.empty] by simp
  then show ?thesis
    unfolding getTicketDetails_parse_def match_first_doc [OF assms] by simp
qed

lemma authenticate_string_data:
  assumes "http_get ev (auth_request ev c) = HttpOk body"
    and "response_data ev body = JStr data"
  shows "authenticate ev c =
           (Inr (trim data), c\<lparr>authToken := Some (trim data)\<rparr>, [HttpGet (auth_request ev c)])"
  using assms by (simp add: authenticate_def string_receiver_def)

lemma no_element_example: "\<not> has_ticket_element (js ''<tickets></tickets>'')"
  unfolding has_ticket_element_iff by (simp add: js_def ticket_at_def)



section \<open>The precondition on the token\<close>

text \<open>
  C1 does not hold of the two REST operations: on a client that was never authenticated
  they raise no precondition failure; each sends its request and returns what it extracts
  from the answer.
\<close>

theorem rest_operations_without_token:
  "authToken demo_client = None \<and>
   getTicketDetails (fixed_env (HttpOk (js ''<ticket ticketid=\"55\"/>'')) (Inr []) not_json)
     demo_client (js ''55'') =
     (Inr (attrs_of [([], js ''ticketid'', js ''55'')]), demo_client,
      [HttpGet (details_request demo_client (js ''55''))]) \<and>
   searchTicketsByCreator (fixed_env (HttpOk (js ''<ticket ticketid=\"55\"/>'')) (Inr []) not_json)
     demo_client (js ''me'') \<lparr>start_opt = None, max_opt = None\<rparr> =
     (Inr [attrs_of [([], js ''ticketid'', js ''55'')]], demo_client,
      [HttpGet (search_request demo_client (js ''me'') \<lparr>start_opt = None, max_opt = None\<rparr>)])"
  by (simp add: getTicketDetails_def getTicketDetails_parse_def searchTicketsByCreator_def model_defs)

section \<open>getTicketDetails: extraction of the ticket element\<close>

text \<open>
  C2 does not hold of a value that holds \<open>>\<close>: the body is one self-closing ticket element
  whose only value, \<open>a>b\<close>, has no double quote, and \<open>getTicketDetails\<close> finds no element
  and fails, where the claim has it return the mapping of \<open>subject\<close> to \<open>a>b\<close>.
\<close>

theorem getTicketDetails_gt_in_value:
  "DQ_c \<notin> set (js ''a>b'') \<and>
   js ''<ticket subject=\"a>b\"/>'' =
     js ''<ticket'' @ 0x20 # attr_text [([], js ''subject'', js ''a>b'')] @ js ''/>'' \<and>
   fst (getTicketDetails (fixed_env (HttpOk (js ''<ticket subject=\"a>b\"/>'')) (Inr []) not_json)
          (demo_client\<lparr>authToken := Some (js ''tok'')\<rparr>) (js ''55'')) =
     Inl (Error (js ''getTicketDetails REST error: undefined undefined''))"
  by (simp add: getTicketDetails_def getTicketDetails_parse_def details_request_def model_defs)

section \<open>createTicket: the returned string\<close>

text \<open>
  C3: when the remote operation returns the string \<open>ret\<close>, \<open>createTicket\<close> returns the second
  and the third part of \<open>ret\<close>, split at \<open>|\<close>, as \<open>ticketid\<close> and \<open>ticketnr\<close> if the first
  part is \<open>true\<close>; otherwise it fails, and the message ends with \<open>ret\<close>.
\<close>

theorem createTicket_result:
  assumes "getSoapClient ev c = (Inr h, c', calls)"
    and "soap_invoke ev h ''createTicket'' (createTicket_args c' subject partnerId keyword opts) =
           Inr ret"
  shows "fst (createTicket ev c subject partnerId keyword opts) =
           (if hd (split PIPE_c ret) = js ''true''
            then Inr \<lparr>ticketid = nth_opt (split PIPE_c ret) 1,
                       ticketnr = nth_opt (split PIPE_c ret) 2\<rparr>
            else Inl (Error (js ''createTicket SOAP error: Ticket creation failed: '' @ ret)))"
proof -
  have "nth_opt (split PIPE_c ret) 0 = Some (hd (split PIPE_c ret))"
    using split_not_Nil [of PIPE_c ret] by (cases "split PIPE_c ret") (auto simp: nth_opt_def)
  then show ?thesis
    using assms by (simp add: createTicket_def createTicket_parse_def Let_def Error_def js_def)
qed

theorem createTicket_result_witness:
  "fst (createTicket (fixed_env (HttpOk []) (Inr (js ''true|55|TK-2024-001'')) (Inr JNull))
          (demo_client\<lparr>authToken := Some (js ''tok'')\<rparr>) (js ''s'') (js ''p'') (js ''k'')
          \<lparr>category = None, channel = None, description = None, ticketType = None,
           ticketGroup = None, fieldValues = None, priority = None, ticketSystem = None\<rparr>) =
     Inr \<lparr>ticketid = Some (js ''55''), ticketnr = Some (js ''TK-2024-001'')\<rparr> \<and>
   fst (createTicket (fixed_env (HttpOk []) (Inr (js ''false|ERR_DUP'')) (Inr JNull))
          (demo_client\<lparr>authToken := Some (js ''tok'')\<rparr>) (js ''s'') (js ''p'') (js ''k'')
          \<lparr>category = None, channel = None, description = None, ticketType = None,
           ticketGroup = None, fieldValues = None, priority = None, ticketSystem = None\<rparr>) =
     Inl (Error (js ''createTicket SOAP error: Ticket creation failed: false|ERR_DUP''))"
proof -
  let ?c = "demo_client\<lparr>authToken := Some (js ''tok'')\<rparr>"
  let ?o = "\<lparr>category = None, channel = None, description = None, ticketType = None,
             ticketGroup = None, fieldValues = None, priority = None, ticketSystem = None\<rparr>"
  let ?e1 = "fixed_env (HttpOk []) (Inr (js ''true|55|TK-2024-001'')) (Inr JNull)"
  let ?e2 = "fixed_env (HttpOk []) (Inr (js ''false|ERR_DUP'')) (Inr JNull)"
  have g1: "getSoapClient ?e1 ?c = (Inr 0, ?c\<lparr>soapClient := Some 0\<rparr>, [SoapCreateClient (soapWsdl ?c)])"
    and g2: "getSoapClient ?e2 ?c = (Inr 0, ?c\<lparr>soapClient := Some 0\<rparr>, [SoapCreateClient (soapWsdl ?c)])"
    by (simp_all add: getSoapClient_def has_token_def fixed_env_def demo_client_def new_client_def js_def)
  have i1: "soap_invoke ?e1 0 ''createTicket''
              (createTicket_args (?c\<lparr>soapClient := Some 0\<rparr>) (js ''s'') (js ''p'') (js ''k'') ?o) =
            Inr (js ''true|55|TK-2024-001'')"
    and i2: "soap_invoke ?e2 0 ''createTicket''
              (createTicket_args (?c\<lparr>soapClient := Some 0\<rparr>) (js ''s'') (js ''p'') (js ''k'') ?o) =
            Inr (js ''false|ERR_DUP'')"
    by (simp_all add: fixed_env_def)
  have s1: "split PIPE_c (js ''true|55|TK-2024-001'') = [js ''true'', js ''55'', js ''TK-2024-001'']"
    and s2: "split PIPE_c (js ''false|ERR_DUP'') = [js ''false'', js ''ERR_DUP'']"
    by (simp_all add: js_def)
  have n: "js ''false'' \<noteq> js ''true''" by (simp add: js_def)
  have a: "js ''createTicket SOAP error: Ticket creation failed: '' @ js ''false|ERR_DUP'' =
           js ''createTicket SOAP error: Ticket creation failed: false|ERR_DUP''"
    by (simp add: js_def)
  have 1: "fst (createTicket ?e1 ?c (js ''s'') (js ''p'') (js ''k'') ?o) =
             Inr \<lparr>ticketid = Some (js ''55''), ticketnr = Some (js ''TK-2024-001'')\<rparr>"
    using createTicket_result [OF g1 i1] unfolding s1 by (simp add: nth_opt_def)
  have 2: "fst (createTicket ?e2 ?c (js ''s'') (js ''p'') (js ''k'') ?o) =
             Inl (Error (js ''createTicket SOAP error: Ticket creation failed: false|ERR_DUP''))"
    using createTicket_result [OF g2 i2] unfolding s2 a using n by simp
  show ?thesis using 1 2 by (rule conjI)
qed

section \<open>getKeywords: the returned envelope\<close>

text \<open>
  C4: when the remote operation returns the string \<open>ret\<close>: if \<open>ret\<close> parses to an object
  whose \<open>SUCCESS\<close> is \<open>true\<close>, \<open>getKeywords\<close> returns its \<open>DATA\<close> as it is; if \<open>SUCCESS\<close>
  is \<open>false\<close>, it fails, whatever else the object holds, and the message ends with the
  string form of \<open>ERRORTEXT\<close> (with \<open>undefined\<close> when there is none), which for a string
  is \<open>ERRORTEXT\<close> itself; if \<open>JSON.parse\<close> rejects \<open>ret\<close>, it fails with the message of
  that error.
\<close>

theorem getKeywords_result:
  assumes "getSoapClient ev c = (Inr h, c', calls)"
    and "soap_invoke ev h ''getKeywords'' (getKeywords_args c' chan tsys) = Inr ret"
  shows "(\<forall>kvs. json_parse ev ret = Inr (JObj kvs) \<and>
            map_of kvs (js ''SUCCESS'') = Some (JBool True) \<longrightarrow>
            fst (getKeywords ev c chan tsys) = Inr (map_of kvs (js ''DATA''))) \<and>
         (\<forall>kvs. json_parse ev ret = Inr (JObj kvs) \<and>
            map_of kvs (js ''SUCCESS'') = Some (JBool False) \<longrightarrow>
            fst (getKeywords ev c chan tsys) =
              Inl (Error (js ''getKeywords SOAP error: '' @
                     (case to_string ev (map_of kvs (js ''ERRORTEXT'')) of
                        Inr txt \<Rightarrow> js ''getKeywords failed: '' @ txt
                      | Inl err \<Rightarrow> message err)))) \<and>
         (\<forall>kvs txt. json_parse ev ret = Inr (JObj kvs) \<and>
            map_of kvs (js ''SUCCESS'') = Some (JBool False) \<and>
            map_of kvs (js ''ERRORTEXT'') = Some (JStr txt) \<longrightarrow>
            fst (getKeywords ev c chan tsys) =
              Inl (Error (js ''getKeywords SOAP error: getKeywords failed: '' @ txt))) \<and>
         (\<forall>err. json_parse ev ret = Inl err \<longrightarrow>
            fst (getKeywords ev c chan tsys) =
              Inl (Error (js ''getKeywords SOAP error: '' @ message err)))"
proof (intro conjI allI impI)
  fix kvs
  assume "json_parse ev ret = Inr (JObj kvs) \<and> map_of kvs (js ''SUCCESS'') = Some (JBool True)"
  then show "fst (getKeywords ev c chan tsys) = Inr (map_of kvs (js ''DATA''))"
    using assms
    by (simp add: getKeywords_def getKeywords_parse_def get_prop_def truthy_def Let_def)
next
  fix kvs
  assume "json_parse ev ret = Inr (JObj kvs) \<and> map_of kvs (js ''SUCCESS'') = Some (JBool False)"
  then show "fst (getKeywords ev c chan tsys) =
               Inl (Error (js ''getKeywords SOAP error: '' @
                      (case to_string ev (map_of kvs (js ''ERRORTEXT'')) of
                         Inr txt \<Rightarrow> js ''getKeywords failed: '' @ txt
                       | Inl err \<Rightarrow> message err)))"
    using assms
    by (simp add: getKeywords_def getKeywords_parse_def get_prop_def truthy_def Let_def Error_def
          split: sum.splits)
next
  fix kvs t
  assume "json_parse ev ret = Inr (JObj kvs) \<and> map_of kvs (js ''SUCCESS'') = Some (JBool False) \<and>
          map_of kvs (js ''ERRORTEXT'') = Some (JStr t)"
  then show "fst (getKeywords ev c chan tsys) =
               Inl (Error (js ''getKeywords SOAP error: getKeywords failed: '' @ t))"
    using assms
    by (simp add: getKeywords_def getKeywords_parse_def get_prop_def truthy_def to_string_def
          Let_def Error_def js_def)
next
  fix err
  assume "json_parse ev ret = Inl err"
  then show "fst (getKeywords ev c chan tsys) =
               Inl (Error (js ''getKeywords SOAP error: '' @ message err))"
    using assms by (simp add: getKeywords_def getKeywords_parse_def Let_def)
qed

theorem getKeywords_result_witness:
  "fst (getKeywords
          (fixed_env (HttpOk []) (Inr (js ''{...}''))
             (Inr (JObj [(js ''SUCCESS'', JBool True),
                         (js ''DATA'',
                          JArr [JObj [(js ''KEYWORD'', JStr (js ''Mieterh'' @ [0xF6] @ js ''hung''))]])])))
          (demo_client\<lparr>authToken := Some (js ''tok'')\<rparr>) None None) =
     Inr (Some (JArr [JObj [(js ''KEYWORD'', JStr (js ''Mieterh'' @ [0xF6] @ js ''hung''))]])) \<and>
   fst (getKeywords
          (fixed_env (HttpOk []) (Inr (js ''{...}''))
             (Inr (JObj [(js ''SUCCESS'', JBool False), (js ''ERRORTEXT'', JStr (js ''no access''))])))
          (demo_client\<lparr>authToken := Some (js ''tok'')\<rparr>) None None) =
     Inl (Error (js ''getKeywords SOAP error: getKeywords failed: no access'')) \<and>
   fst (getKeywords
          (fixed_env (HttpOk []) (Inr (js ''{...}'')) (Inr (JObj [(js ''SUCCESS'', JBool False)])))
          (demo_client\<lparr>authToken := Some (js ''tok'')\<rparr>) None None) =
     Inl (Error (js ''getKeywords SOAP error: getKeywords failed: undefined'')) \<and>
   fst (getKeywords
          (fixed_env (HttpOk []) (Inr (js ''<html>'')) (Inl (Error (js ''Unexpected token <''))))
          (demo_client\<lparr>authToken := Some (js ''tok'')\<rparr>) None None) =
     Inl (Error (js ''getKeywords SOAP error: Unexpected token <''))"
proof -
  let ?c = "demo_client\<lparr>authToken := Some (js ''tok'')\<rparr>"
  let ?c' = "?c\<lparr>soapClient := Some 0\<rparr>"
  let ?data = "JArr [JObj [(js ''KEYWORD'', JStr (js ''Mieterh'' @ [0xF6] @ js ''hung''))]]"
  let ?k1 = "[(js ''SUCCESS'', JBool True), (js ''DATA'', ?data)]"
  let ?k2 = "[(js ''SUCCESS'', JBool False), (js ''ERRORTEXT'', JStr (js ''no access''))]"
  let ?k3 = "[(js ''SUCCESS'', JBool False)]"
  let ?e1 = "fixed_env (HttpOk []) (Inr (js ''{...}'')) (Inr (JObj ?k1))"
  let ?e2 = "fixed_env (HttpOk []) (Inr (js ''{...}'')) (Inr (JObj ?k2))"
  let ?e3 = "fixed_env (HttpOk []) (Inr (js ''{...}'')) (Inr (JObj ?k3))"
  let ?e4 = "fixed_env (HttpOk []) (Inr (js ''<html>'')) (Inl (Error (js ''Unexpected token <'')))"
  have g: "getSoapClient ?e1 ?c = (Inr 0, ?c', [SoapCreateClient (soapWsdl ?c)])"
      "getSoapClient ?e2 ?c = (Inr 0, ?c', [SoapCreateClient (soapWsdl ?c)])"
      "getSoapClient ?e3 ?c = (Inr 0, ?c', [SoapCreateClient (soapWsdl ?c)])"
      "getSoapClient ?e4 ?c = (Inr 0, ?c', [SoapCreateClient (soapWsdl ?c)])"
    by (simp_all add: getSoapClient_def has_token_def fixed_env_def demo_client_def new_client_def js_def)
  have i: "soap_invoke ?e1 0 ''getKeywords'' (getKeywords_args ?c' None None) = Inr (js ''{...}'')"
      "soap_invoke ?e2 0 ''getKeywords'' (getKeywords_args ?c' None None) = Inr (js ''{...}'')"
      "soap_invoke ?e3 0 ''getKeywords'' (getKeywords_args ?c' None None) = Inr (js ''{...}'')"
      "soap_invoke ?e4 0 ''getKeywords'' (getKeywords_args ?c' None None) = Inr (js ''<html>'')"
    by (simp_all add: fixed_env_def)
  have p1: "json_parse ?e1 (js ''{...}'') = Inr (JObj ?k1) \<and>
            map_of ?k1 (js ''SUCCESS'') = Some (JBool True)"
    and p2: "json_parse ?e2 (js ''{...}'') = Inr (JObj ?k2) \<and>
            map_of ?k2 (js ''SUCCESS'') = Some (JBool False) \<and>
            map_of ?k2 (js ''ERRORTEXT'') = Some (JStr (js ''no access''))"
    and p3: "json_parse ?e3 (js ''{...}'') = Inr (JObj ?k3) \<and>
            map_of ?k3 (js ''SUCCESS'') = Some (JBool False)"
    and p4: "json_parse ?e4 (js ''<html>'') = Inl (Error (js ''Unexpected token <''))"
    by (simp_all add: fixed_env_def js_def)
  have d: "map_of ?k1 (js ''DATA'') = Some ?data"
    by (simp add: js_def)
  have a: "js ''getKeywords SOAP error: getKeywords failed: '' @ js ''no access'' =
           js ''getKeywords SOAP error: getKeywords failed: no access''"
    and b: "js ''getKeywords SOAP error: '' @ message (Error (js ''Unexpected token <'')) =
            js ''getKeywords SOAP error: Unexpected token <''"
    and u: "js ''getKeywords SOAP error: '' @
              (case to_string ?e3 (map_of ?k3 (js ''ERRORTEXT'')) of
                 Inr txt \<Rightarrow> js ''getKeywords failed: '' @ txt
               | Inl err \<Rightarrow> message err) =
            js ''getKeywords SOAP error: getKeywords failed: undefined''"
    by (simp_all add: js_def Error_def to_string_def)
  have 1: "fst (getKeywords ?e1 ?c None None) = Inr (Some ?data)"
    using getKeywords_result [OF g(1) i(1), THEN conjunct1, rule_format, OF p1]
    unfolding d .
  have 2: "fst (getKeywords ?e2 ?c None None) =
             Inl (Error (js ''getKeywords SOAP error: getKeywords failed: no access''))"
    using getKeywords_result [OF g(2) i(2), THEN conjunct2, THEN conjunct2, THEN conjunct1,
        rule_format, OF p2]
    unfolding a .
  have 3: "fst (getKeywords ?e3 ?c None None) =
             Inl (Error (js ''getKeywords SOAP error: getKeywords failed: undefined''))"
    using getKeywords_result [OF g(3) i(3), THEN conjunct2, THEN conjunct1, rule_format, OF p3]
    unfolding u .
  have 4: "fst (getKeywords ?e4 ?c None None) =
             Inl (Error (js ''getKeywords SOAP error: Unexpected token <''))"
    using getKeywords_result [OF g(4) i(4), THEN conjunct2, THEN conjunct2, THEN conjunct2,
        rule_format, OF p4]
    unfolding b .
  show ?thesis using 1 2 3 4 by (intro conjI)
qed

section \<open>searchTicketsByCreator: extraction and request\<close>

text \<open>
  C5 does not hold of a value that holds \<open>>\<close>: the body is a fragment with one
  self-closing ticket element whose only value, \<open>a>b\<close>, has no double quote, and the
  result holds no mapping, where the claim has it hold the one mapping of \<open>subject\<close> to
  \<open>a>b\<close>.
\<close>

theorem searchTicketsByCreator_gt_in_value:
  "DQ_c \<notin> set (js ''a>b'') \<and>
   js ''<tickets><ticket subject=\"a>b\"/></tickets>'' =
     doc_text [(js ''<tickets>'', 0x20, [([], js ''subject'', js ''a>b'')], [])] (js ''</tickets>'') \<and>
   searchTicketsByCreator
     (fixed_env (HttpOk (js ''<tickets><ticket subject=\"a>b\"/></tickets>'')) (Inr []) not_json)
     (demo_client\<lparr>authToken := Some (js ''tok'')\<rparr>) (js ''me'')
     \<lparr>start_opt = None, max_opt = None\<rparr> =
   (Inr [], demo_client\<lparr>authToken := Some (js ''tok'')\<rparr>,
    [HttpGet (search_request (demo_client\<lparr>authToken := Some (js ''tok'')\<rparr>) (js ''me'')
                \<lparr>start_opt = None, max_opt = None\<rparr>)])"
  by (simp add: searchTicketsByCreator_def model_defs)




text \<open>
  C7: every call of \<open>searchTicketsByCreator\<close> makes one request; it carries \<open>start\<close> and
  \<open>max\<close> as supplied (1 and 10 when not supplied), \<open>field_count\<close> 1 and the one filter
  triple \<open>f1\<close> = \<open>CREATE_BY\<close>, \<open>f1_op\<close> = \<open>=\<close> (the operator equals), \<open>f1_val\<close> = the
  login supplied; there is no other filter parameter.
\<close>

theorem searchTicketsByCreator_request:
  "\<exists>req. snd (snd (searchTicketsByCreator ev c creatorLogin opts)) = [HttpGet req] \<and>
     url req = baseUrl c @ js ''/dokuweb/tickets/'' \<and>
     map fst (params req) =
       [''authtoken'', ''start'', ''max'', ''field_count'', ''f1'', ''f1_op'', ''f1_val''] \<and>
     map_of (params req) ''start'' =
       Some (PNum (case start_opt opts of None \<Rightarrow> 1 | Some n \<Rightarrow> n)) \<and>
     map_of (params req) ''max'' =
       Some (PNum (case max_opt opts of None \<Rightarrow> 10 | Some n \<Rightarrow> n)) \<and>
     map_of (params req) ''field_count'' = Some (PNum 1) \<and>
     map_of (params req) ''f1'' = Some (PStr (js ''CREATE_BY'')) \<and>
     map_of (params req) ''f1_op'' = Some (PStr (js ''='')) \<and>
     map_of (params req) ''f1_val'' = Some (PStr creatorLogin)"
proof -
  have "snd (snd (searchTicketsByCreator ev c creatorLogin opts)) =
          [HttpGet (search_request c creatorLogin opts)]"
    by (simp add: searchTicketsByCreator_def Let_def split: http_outcome.splits sum.splits)
  then show ?thesis by (simp add: search_request_def)
qed

theorem searchTicketsByCreator_request_witness:
  "\<exists>req. snd (snd (searchTicketsByCreator (fixed_env (HttpOk []) (Inr []) (Inr JNull)) demo_client
                       (js ''me'') \<lparr>start_opt = Some 21, max_opt = None\<rparr>)) = [HttpGet req] \<and>
     map_of (params req) ''start'' = Some (PNum 21) \<and>
     map_of (params req) ''max'' = Some (PNum 10) \<and>
     map_of (params req) ''f1_val'' = Some (PStr (js ''me''))"
  using searchTicketsByCreator_request
    [of "fixed_env (HttpOk []) (Inr []) (Inr JNull)" demo_client "js ''me''"
        "\<lparr>start_opt = Some 21, max_opt = None\<rparr>"]
  by auto

section \<open>authenticate\<close>

text \<open>
  C8 does not hold of a token of digits: the transport succeeds with the body \<open>12345\<close>,
  which \<open>axios\<close> decodes to a number, and \<open>authenticate\<close> stores no token and fails, where
  the claim has it store and return \<open>12345\<close>. Nor does it hold of a transport failure
  without a response, whose error carries no status code and no reason.
\<close>

theorem authenticate_numeric_body:
  "authenticate (fixed_env (HttpOk (js ''12345'')) (Inr []) (Inr (JNum (Dyadic 12345 0))))
     demo_client =
     (Inl (Error (js ''Authentication failed: undefined undefined'')), demo_client,
      [HttpGet (auth_request
                  (fixed_env (HttpOk (js ''12345'')) (Inr []) (Inr (JNum (Dyadic 12345 0))))
                  demo_client)]) \<and>
   fst (authenticate (fixed_env (HttpFail (Error (js ''connect ECONNREFUSED''))) (Inr []) not_json)
          demo_client) =
     Inl (Error (js ''Authentication failed: undefined undefined''))"
  by (simp add: authenticate_def auth_request_def model_defs)

section \<open>Errors that reach the caller\<close>

text \<open>
  C9 does not hold of \<open>getTicketDetails\<close>: when the response has no ticket element, the
  error that reaches the caller names the operation, but not the cause.
\<close>

theorem getTicketDetails_not_found_message:
  "\<not> has_ticket_element (js ''<tickets></tickets>'') \<and>
   fst (getTicketDetails (fixed_env (HttpOk (js ''<tickets></tickets>'')) (Inr []) not_json)
          (demo_client\<lparr>authToken := Some (js ''tok'')\<rparr>) (js ''55'')) =
     Inl (Error (js ''getTicketDetails REST error: undefined undefined''))"
  using no_element_example
  by (simp add: getTicketDetails_def getTicketDetails_parse_none model_defs)

section \<open>The client after a failed authentication\<close>

text \<open>
  C10: when \<open>authenticate\<close> fails, the client is as it was before the call: the token and
  the SOAP handle keep their values.
\<close>

theorem authenticate_failure_keeps_client:
  "authenticate ev c = (Inl err, c', calls) \<Longrightarrow>
     c' = c \<and> authToken c' = authToken c \<and> soapClient c' = soapClient c"
  by (auto simp: authenticate_def Let_def split: http_outcome.splits sum.splits)

theorem authenticate_failure_keeps_client_witness:
  "authenticate (fixed_env (HttpFail (Error (js ''timeout''))) (Inr []) (Inr JNull))
     (demo_client\<lparr>authToken := Some (js ''old''), soapClient := Some 3\<rparr>) =
     (Inl (Error (js ''Authentication failed: undefined undefined'')),
      demo_client\<lparr>authToken := Some (js ''old''), soapClient := Some 3\<rparr>,
      [HttpGet (auth_request (fixed_env (HttpFail (Error (js ''timeout''))) (Inr []) (Inr JNull))
                  (demo_client\<lparr>authToken := Some (js ''old''), soapClient := Some 3\<rparr>))]) \<and>
   authToken (demo_client\<lparr>authToken := Some (js ''old''), soapClient := Some 3\<rparr>) = Some (js ''old'') \<and>
   soapClient (demo_client\<lparr>authToken := Some (js ''old''), soapClient := Some 3\<rparr>) = Some 3"
proof -
  let ?ev = "fixed_env (HttpFail (Error (js ''timeout''))) (Inr []) (Inr JNull)"
  let ?c = "demo_client\<lparr>authToken := Some (js ''old''), soapClient := Some 3\<rparr>"
  have run: "authenticate ?ev ?c =
               (Inl (Error (js ''Authentication failed: undefined undefined'')), ?c,
                [HttpGet (auth_request ?ev ?c)])"
    by (simp add: authenticate_def fixed_env_def Error_def status_str_def statusText_str_def js_def)
  show ?thesis
    using run authenticate_failure_keeps_client [OF run] by simp
qed

end
